theory Spec2Isabelle
  imports Main
begin

section \<open>Strings of the configuration's JavaScript\<close>

text \<open>
  The commitlint configuration \<^verbatim>\<open>.commitlint.config.mjs\<close> works on JavaScript strings,
  which are sequences of UTF-16 code units. A \<^typ>\<open>char\<close> stands for one code unit in the
  range U+0000 .. U+00FF (ASCII and Latin-1), which the 8-bit type holds exactly; that range
  is closed under \<^verbatim>\<open>toLowerCase\<close>. Code units above U+00FF are outside the model.
\<close>

definition is_word_char :: "char \<Rightarrow> bool" where
  \<comment> \<open>the regular-expression class \<^verbatim>\<open>\w\<close> (no \<^verbatim>\<open>u\<close> or \<^verbatim>\<open>i\<close> flag): \<^verbatim>\<open>[A-Za-z0-9_]\<close>\<close>
  "is_word_char c =
     (let n = (of_char c :: nat)
      in (48 \<le> n \<and> n \<le> 57) \<or> (65 \<le> n \<and> n \<le> 90) \<or> n = 95 \<or> (97 \<le> n \<and> n \<le> 122))"

definition is_space :: "char \<Rightarrow> bool" where
  \<comment> \<open>the class \<^verbatim>\<open>\s\<close>, and what \<^verbatim>\<open>trim()\<close> strips: TAB, LF, VT, FF, CR, SPACE, NBSP\<close>
  "is_space c =
     (let n = (of_char c :: nat)
      in (9 \<le> n \<and> n \<le> 13) \<or> n = 32 \<or> n = 160)"

definition is_line_terminator :: "char \<Rightarrow> bool" where
  \<comment> \<open>LF and CR (U+2028 and U+2029 are outside the modelled range)\<close>
  "is_line_terminator c = (let n = (of_char c :: nat) in n = 10 \<or> n = 13)"

definition dot :: "char \<Rightarrow> bool" where
  \<comment> \<open>the regular-expression atom \<^verbatim>\<open>.\<close> (no \<^verbatim>\<open>s\<close> flag)\<close>
  "dot c = (\<not> is_line_terminator c)"

definition component_char :: "char \<Rightarrow> bool" where
  \<comment> \<open>the class \<^verbatim>\<open>[\w._-]\<close> of \<^verbatim>\<open>headerPattern\<close>\<close>
  "component_char c = (is_word_char c \<or> c = CHR ''.'' \<or> c = CHR ''_'' \<or> c = CHR ''-'')"

definition bump_char :: "char \<Rightarrow> bool" where
  \<comment> \<open>the class \<^verbatim>\<open>[\w.-]\<close> of the version-bump pattern\<close>
  "bump_char c = (is_word_char c \<or> c = CHR ''.'' \<or> c = CHR ''-'')"

definition lower_char :: "char \<Rightarrow> char" where
  \<comment> \<open>\<^verbatim>\<open>toLowerCase\<close> on one code unit: A-Z, and U+00C0 .. U+00DE except the
      multiplication sign U+00D7, move up by 32\<close>
  "lower_char c =
     (let n = (of_char c :: nat)
      in if (65 \<le> n \<and> n \<le> 90) \<or> (192 \<le> n \<and> n \<le> 222 \<and> n \<noteq> 215)
         then char_of (n + 32) else c)"

definition toLowerCase :: "string \<Rightarrow> string" where
  "toLowerCase s = map lower_char s"

definition trim :: "string \<Rightarrow> string" where
  \<comment> \<open>\<^verbatim>\<open>String.prototype.trim\<close>: white space and line terminators go from both ends\<close>
  "trim s = rev (dropWhile is_space (rev (dropWhile is_space s)))"

fun split :: "char \<Rightarrow> string \<Rightarrow> string list" where
  \<comment> \<open>\<^verbatim>\<open>s.split(sep)\<close> for a one-character separator; the empty string gives one empty piece\<close>
  "split sep [] = [[]]"
| "split sep (c # cs) =
     (if c = sep then [] # split sep cs
      else (case split sep cs of [] \<Rightarrow> [[c]] | p # ps \<Rightarrow> (c # p) # ps))"

fun startsWith :: "string \<Rightarrow> string \<Rightarrow> bool" where
  "startsWith s [] = True"
| "startsWith [] (p # ps) = False"
| "startsWith (c # cs) (p # ps) = (c = p \<and> startsWith cs ps)"

fun includes_str :: "string \<Rightarrow> string \<Rightarrow> bool" where
  \<comment> \<open>\<^verbatim>\<open>s.includes(sub)\<close>: \<open>sub\<close> occurs in \<open>s\<close> as a contiguous run\<close>
  "includes_str [] sub = (sub = [])"
| "includes_str (c # cs) sub = (startsWith (c # cs) sub \<or> includes_str cs sub)"

definition or_empty :: "string option \<Rightarrow> string" where
  \<comment> \<open>\<^verbatim>\<open>x || ''\<close> on a field that is a string, \<^verbatim>\<open>null\<close> or \<^verbatim>\<open>undefined\<close>\<close>
  "or_empty x = (case x of None \<Rightarrow> [] | Some s \<Rightarrow> s)"

section \<open>The verb allowlists\<close>

definition ALLOWED_IMPERATIVE_VERBS :: "string list" where
  "ALLOWED_IMPERATIVE_VERBS = [
  ''accommodate'', ''archive'', ''auto-create'', ''backport'', ''backstop'', ''backtick'',
   ''box'', ''canonicalize'', ''cargo'', ''cherry-pick'', ''chill'', ''chmod'', ''choose'',
   ''compress'', ''conditionalize'', ''confine'', ''constrain'', ''consult'', ''deny'',
   ''derive'', ''destructure'', ''differentiate'', ''downgrade'', ''download'', ''drive'',
   ''elaborate'', ''encode'', ''execute'', ''express'', ''flip'', ''follow'', ''format'',
   ''genericize'', ''go'', ''inject'', ''install'', ''inventory'', ''isolate'', ''label'',
   ''label'', ''launch'', ''mention'', ''mitigate'', ''modularize'', ''mount'',
   ''normalize'', ''order'', ''organize'', ''output'', ''overhaul'', ''patch'',
   ''percent-encode'', ''persist'', ''pessimize'', ''pin'', ''plumb'', ''point'',
   ''polyfill'', ''prepend'', ''privatize'', ''quote'', ''raise'', ''re-create'',
   ''re-enable'', ''reap'', ''rebase'', ''recommend'', ''reconfigure'', ''redo'',
   ''refer'', ''render'', ''renumber'', ''repeat'', ''rerun'', ''restart'', ''retain'',
   ''scope'', ''secure'', ''sign'', ''solicit'', ''special-case'', ''strengthen'',
   ''stripe'', ''surface'', ''templatize'', ''tie'', ''translate'', ''truncate'',
   ''trust'', ''unmask'', ''unpin'', ''unset'', ''unwrap'', ''vend'', ''vendor'', ''widen'']"

definition COMMITLINT_PLUGIN_TENSE_ALLOWLIST :: "string list" where
  "COMMITLINT_PLUGIN_TENSE_ALLOWLIST = [
  ''abort'', ''absorb'', ''abstract'', ''accept'', ''access'', ''account'', ''acquire'',
   ''activate'', ''adapt'', ''add'', ''address'', ''adjust'', ''adopt'', ''advertise'',
   ''align'', ''allocate'', ''allow'', ''annotate'', ''append'', ''apply'', ''assert'',
   ''assign'', ''assume'', ''attach'', ''automatically'', ''avoid'', ''bail'', ''balance'',
   ''be'', ''beautify'', ''better'', ''bind'', ''block'', ''break'', ''bring'', ''build'',
   ''bump'', ''cache'', ''calculate'', ''call'', ''cancel'', ''capture'', ''cast'',
   ''catch'', ''centralise'', ''centralize'', ''change'', ''check'', ''clarify'',
   ''clean'', ''cleanup'', ''clear'', ''close'', ''code'', ''collapse'', ''collect'',
   ''combine'', ''comment'', ''compile'', ''complete'', ''compute'', ''conditionally'',
   ''configure'', ''consider'', ''consistently'', ''consolidate'', ''constify'',
   ''control'', ''convert'', ''copy'', ''correct'', ''count'', ''create'', ''deal'',
   ''debug'', ''declare'', ''decode'', ''decouple'', ''decrease'', ''deduplicate'',
   ''default'', ''defer'', ''define'', ''delay'', ''delete'', ''demote'', ''depend'',
   ''deprecate'', ''describe'', ''destroy'', ''detect'', ''determine'', ''disable'',
   ''disallow'', ''discard'', ''display'', ''distinguish'', ''do'', ''document'',
   ''don'' @ [CHR 0x27] @ ''t'', ''double'', ''drop'', ''dump'', ''eliminate'', ''embed'',
   ''emit'', ''emulate'', ''enable'', ''encapsulate'', ''enforce'', ''enhance'',
   ''ensure'', ''error'', ''exclude'', ''exit'', ''expand'', ''explain'', ''export'',
   ''expose'', ''extend'', ''extract'', ''factor'', ''factorize'', ''fail'', ''fallback'',
   ''fetch'', ''fill'', ''filter'', ''find'', ''finish'', ''fix'', ''fixup'', ''flush'',
   ''fold'', ''forbid'', ''force'', ''free'', ''fully'', ''further'', ''generalize'',
   ''generate'', ''get'', ''give'', ''grab'', ''group'', ''guard'', ''handle'', ''have'',
   ''hide'', ''hold'', ''honor'', ''honour'', ''hook'', ''identify'', ''ignore'',
   ''implement'', ''improve'', ''include'', ''increase'', ''increment'', ''indicate'',
   ''init'', ''initial'', ''initialise'', ''initialize'', ''inline'', ''insert'',
   ''integrate'', ''introduce'', ''invalidate'', ''invert'', ''invoke'', ''issue'',
   ''keep'', ''kill'', ''leave'', ''let'', ''lift'', ''limit'', ''link'', ''load'',
   ''lock'', ''log'', ''look'', ''lower'', ''maintain'', ''make'', ''manage'', ''map'',
   ''mark'', ''mask'', ''match'', ''merge'', ''migrate'', ''modify'', ''move'', ''name'',
   ''notify'', ''nuke'', ''null'', ''omit'', ''on'', ''open'', ''optimise'', ''optimize'',
   ''override'', ''parse'', ''pass'', ''perform'', ''permit'', ''place'', ''platform'',
   ''plug'', ''poll'', ''populate'', ''port'', ''power'', ''prefer'', ''prefix'',
   ''prepare'', ''preserve'', ''prevent'', ''print'', ''probe'', ''process'', ''program'',
   ''propagate'', ''protect'', ''provide'', ''pull'', ''purge'', ''push'', ''put'',
   ''query'', ''queue'', ''quiet'', ''read'', ''rearrange'', ''record'', ''reduce'',
   ''refactor'', ''reference'', ''refine'', ''reformat'', ''refresh'', ''refuse'',
   ''register'', ''reimplement'', ''reject'', ''relax'', ''release'', ''relicense'',
   ''relocate'', ''rely'', ''remove'', ''rename'', ''reorder'', ''reorganise'',
   ''reorganize'', ''repair'', ''replace'', ''report'', ''request'', ''require'',
   ''reserve'', ''reset'', ''resolve'', ''respect'', ''restore'', ''restrict'',
   ''restructure'', ''retrieve'', ''retry'', ''return'', ''reuse'', ''revert'', ''revise'',
   ''rework'', ''rewrite'', ''rip'', ''round'', ''run'', ''sanitise'', ''sanitize'',
   ''save'', ''schedule'', ''select'', ''send'', ''separate'', ''serialise'',
   ''serialize'', ''set'', ''setup'', ''share'', ''shorten'', ''show'', ''shrink'',
   ''shut'', ''silence'', ''simplify'', ''skip'', ''sort'', ''specify'', ''speed'',
   ''split'', ''standardise'', ''standardize'', ''start'', ''staticise'', ''staticize'',
   ''stop'', ''store'', ''streamline'', ''style'', ''supply'', ''support'', ''suppress'',
   ''swap'', ''switch'', ''sync'', ''synchronise'', ''synchronize'', ''take'', ''teach'',
   ''tell'', ''test'', ''tidy'', ''tidyup'', ''tighten'', ''trace'', ''track'', ''treat'',
   ''trigger'', ''trim'', ''try'', ''tune'', ''turn'', ''tweak'', ''unbreak'',
   ''unconditionally'', ''unexport'', ''unify'', ''uninline'', ''unlock'', ''unmap'',
   ''unregister'', ''update'', ''upgrade'', ''use'', ''utilise'', ''utilize'',
   ''validate'', ''verify'', ''wait'', ''wake'', ''warn'', ''wire'', ''work'',
   ''workaround'', ''wrap'', ''write'', ''zero'']"

definition allowlist :: "string list" where
  \<comment> \<open>\<^verbatim>\<open>[...ALLOWED_IMPERATIVE_VERBS, ...COMMITLINT_PLUGIN_TENSE_ALLOWLIST]\<close>\<close>
  "allowlist = ALLOWED_IMPERATIVE_VERBS @ COMMITLINT_PLUGIN_TENSE_ALLOWLIST"

section \<open>Regular expressions, by backtracking\<close>

text \<open>
  Each piece of a pattern maps the rest of the input to the list of ways it can match there,
  in the order in which the backtracking matcher of JavaScript tries them: a greedy
  quantifier offers its longest match first. A pattern matches when the list of its complete
  matches is not empty, and the first element is the match that \<^verbatim>\<open>exec\<close> reports.
\<close>

fun plus_run :: "(char \<Rightarrow> bool) \<Rightarrow> string \<Rightarrow> (string \<times> string) list" where
  \<comment> \<open>\<^verbatim>\<open>[class]+\<close>: every non-empty run of class characters at the front, longest first,
      each with the input left over\<close>
  "plus_run p [] = []"
| "plus_run p (c # cs) =
     (if p c then map (\<lambda>(m, r). (c # m, r)) (plus_run p cs) @ [([c], cs)] else [])"

fun single_char :: "(char \<Rightarrow> bool) \<Rightarrow> string \<Rightarrow> (char \<times> string) list" where
  \<comment> \<open>one character of a class\<close>
  "single_char p [] = []"
| "single_char p (c # cs) = (if p c then [(c, cs)] else [])"

fun lit :: "string \<Rightarrow> string \<Rightarrow> string list" where
  \<comment> \<open>a literal run of characters; the result is the input left over\<close>
  "lit [] s = [s]"
| "lit (p # ps) [] = []"
| "lit (p # ps) (c # cs) = (if c = p then lit ps cs else [])"

definition opt_lit :: "string \<Rightarrow> string \<Rightarrow> string list" where
  \<comment> \<open>\<^verbatim>\<open>x?\<close> on a literal: first with it, then without\<close>
  "opt_lit p s = lit p s @ [s]"

section \<open>The header pattern and the parsed commit\<close>

text \<open>
  \<^verbatim>\<open>headerPattern: /^((?:([\w._-]+):\s(.+))|.+)$/\<close>, with
  \<^verbatim>\<open>headerCorrespondence: ['subject', 'component', 'description']\<close>.
  The pattern has no \<^verbatim>\<open>m\<close> flag, so \<^verbatim>\<open>^\<close> and \<^verbatim>\<open>$\<close> are the two ends of the input and
  group 1 is the whole input. The first alternative sets groups 2 and 3; the second
  alternative leaves them undefined.
\<close>

definition header_first_alternative :: "string \<Rightarrow> (string \<times> string) list" where
  \<comment> \<open>\<^verbatim>\<open>([\w._-]+):\s(.+)\<close> up to the end of the input: groups 2 and 3 of each match\<close>
  "header_first_alternative h =
     [(tok, d).
        (tok, r1) \<leftarrow> plus_run component_char h,
        r2 \<leftarrow> lit '':'' r1,
        (w, r3) \<leftarrow> single_char is_space r2,
        (d, r4) \<leftarrow> plus_run dot r3,
        r4 = []]"

definition header_second_alternative :: "string \<Rightarrow> string list" where
  \<comment> \<open>\<^verbatim>\<open>.+\<close> up to the end of the input\<close>
  "header_second_alternative h = [m. (m, r) \<leftarrow> plus_run dot h, r = []]"

definition headerPattern ::
    "string \<Rightarrow> (string option \<times> string option \<times> string option) option" where
  \<comment> \<open>\<^verbatim>\<open>header.match(headerPattern)\<close>: \<open>None\<close> for no match, else groups 1, 2 and 3\<close>
  "headerPattern h =
     (case header_first_alternative h of
        (tok, d) # _ \<Rightarrow> Some (Some h, Some tok, Some d)
      | [] \<Rightarrow>
          (case header_second_alternative h of
             m # _ \<Rightarrow> Some (Some m, None, None)
           | [] \<Rightarrow> None))"

record subject_only =
  subject :: "string option"

record commit = subject_only +
  component :: "string option"
  description :: "string option"
  header :: string

definition or_null :: "string option \<Rightarrow> string option" where
  \<comment> \<open>\<^verbatim>\<open>group || null\<close>: an undefined or empty group becomes \<^verbatim>\<open>null\<close>\<close>
  "or_null g = (case g of None \<Rightarrow> None | Some s \<Rightarrow> (if s = [] then None else Some s))"

definition parse_header :: "string \<Rightarrow> commit" where
  \<comment> \<open>\<^verbatim>\<open>parserOpts\<close> at work: the header line is matched against \<open>headerPattern\<close> and
      groups 1, 2 and 3 go, in this order, to the parts that \<^verbatim>\<open>headerCorrespondence\<close>
      names; a part whose group did not take part in the match is \<^verbatim>\<open>null\<close>, and so is
      every part when the line does not match at all. (The conventional-commits parser
      that reads \<^verbatim>\<open>parserOpts\<close> is an imported package.)\<close>
  "parse_header h =
     (case headerPattern h of
        None \<Rightarrow> \<lparr>subject = None, component = None, description = None, header = h\<rparr>
      | Some (g1, g2, g3) \<Rightarrow>
          \<lparr>subject = or_null g1, component = or_null g2, description = or_null g3,
           header = h\<rparr>)"

section \<open>The custom rules\<close>

datatype condition = Always | Never

definition ensure_notEmpty :: "string \<Rightarrow> bool" where
  \<comment> \<open>Modelled from the spec: \<^verbatim>\<open>ensure.notEmpty\<close> is imported from \<^verbatim>\<open>@commitlint/ensure\<close>
      and is not part of this repository; by sections 4.2 and 4.3 the two rules that call it fail when
      the field is empty, so it holds of a string with at least one character\<close>
  "ensure_notEmpty v = (0 < length v)"

fun join :: "string \<Rightarrow> string list \<Rightarrow> string" where
  "join sep [] = []"
| "join sep [x] = x"
| "join sep (x # y # ys) = x @ sep @ join sep (y # ys)"

definition message :: "string list \<Rightarrow> string" where
  \<comment> \<open>Modelled from the spec: \<^verbatim>\<open>message\<close> is imported from \<^verbatim>\<open>@commitlint/message\<close> and is
      not part of this repository; it makes the message text of a rule result (section 3), which names
      the disallowed word (sections 7 and 8): the parts that are not empty, put together
      with single spaces\<close>
  "message input = join '' '' (filter (\<lambda>s. s \<noteq> []) input)"

definition customSubjectCaseRule ::
    "(subject_only \<Rightarrow> condition \<Rightarrow> string list \<Rightarrow> bool \<times> string option) \<Rightarrow>
     commit \<Rightarrow> condition \<Rightarrow> string list \<Rightarrow> bool \<times> string option" where
  \<comment> \<open>\<open>subject_case\<close> is \<^verbatim>\<open>coreRules['subject-case']\<close> of \<^verbatim>\<open>@commitlint/rules\<close>, taken as
      a parameter; it is given a new object with the one field \<^verbatim>\<open>subject\<close>\<close>
  "customSubjectCaseRule subject_case parsed whn val =
     (let newParsed = \<lparr>subject = description parsed\<rparr>
      in subject_case newParsed whn val)"

definition componentEmpty :: "commit \<Rightarrow> condition \<Rightarrow> bool \<times> string option" where
  "componentEmpty parsed whn =
     (let negated = (whn = Never);
          notEmpty = ensure_notEmpty (or_empty (component parsed))
      in (if negated then notEmpty else \<not> notEmpty,
          Some (message [''subject'', if negated then ''must'' else ''may not'',
                         ''be of the form <component>: <description>''])))"

definition descriptionEmpty :: "commit \<Rightarrow> condition \<Rightarrow> bool \<times> string option" where
  "descriptionEmpty parsed whn =
     (let negated = (whn = Never);
          notEmpty = ensure_notEmpty (or_empty (description parsed))
      in (if negated then notEmpty else \<not> notEmpty,
          Some (message [''subject'', if negated then ''must'' else ''may not'',
                         ''be of the form <component>: <description>''])))"

definition firstWord_of :: "string \<Rightarrow> string" where
  \<comment> \<open>\<^verbatim>\<open>description.split(' ')[0] || ''\<close>\<close>
  "firstWord_of d = (case split (CHR '' '') d of [] \<Rightarrow> [] | w # _ \<Rightarrow> w)"

definition descriptionPresentImperativeTense ::
    "commit \<Rightarrow> condition \<Rightarrow> bool \<times> string option" where
  \<comment> \<open>the early \<^verbatim>\<open>return [true]\<close> carries no message\<close>
  "descriptionPresentImperativeTense parsed whn =
     (let negated = (whn = Never);
          description = trim (toLowerCase (or_empty (description parsed)));
          firstWord = firstWord_of description
      in if firstWord = [] then (True, None)
         else
           (let allowed = (firstWord \<in> set allowlist)
            in (if negated then \<not> allowed else allowed,
                Some (message [''subject'', if negated then ''may not'' else ''must'',
                               ''use present imperative tense. disallowed word: '',
                               firstWord]))))"

text \<open>
  The configuration enables the rules with
  \<^verbatim>\<open>'component-empty': [Error, 'never']\<close>, \<^verbatim>\<open>'description-empty': [Error, 'never']\<close> and
  \<^verbatim>\<open>'description-present-imperative-tense': [Error, 'always']\<close>.
\<close>

definition component_empty_rule :: "commit \<Rightarrow> bool \<times> string option" where
  "component_empty_rule parsed = componentEmpty parsed Never"

definition description_empty_rule :: "commit \<Rightarrow> bool \<times> string option" where
  "description_empty_rule parsed = descriptionEmpty parsed Never"

definition tense_rule :: "commit \<Rightarrow> bool \<times> string option" where
  "tense_rule parsed = descriptionPresentImperativeTense parsed Always"

section \<open>The ignore predicates and the evaluator\<close>

definition bump_matches :: "string \<Rightarrow> (string \<times> string) list" where
  \<comment> \<open>the matches of \<^verbatim>\<open>/^bump [\w.-]+ to v?[\w.-]+$/\<close>: the two runs of each\<close>
  "bump_matches s =
     [(a, b).
        r1 \<leftarrow> lit ''bump '' s,
        (a, r2) \<leftarrow> plus_run bump_char r1,
        r3 \<leftarrow> lit '' to '' r2,
        r4 \<leftarrow> opt_lit ''v'' r3,
        (b, r5) \<leftarrow> plus_run bump_char r4,
        r5 = []]"

definition merge_ignore :: "string \<Rightarrow> bool" where
  \<comment> \<open>\<^verbatim>\<open>(message) => message.includes("Merge pull request #")\<close>\<close>
  "merge_ignore m = includes_str m ''Merge pull request #''"

definition bump_ignore :: "string \<Rightarrow> bool" where
  \<comment> \<open>\<^verbatim>\<open>(message) => /^bump [\w.-]+ to v?[\w.-]+$/.test(message.trim())\<close>\<close>
  "bump_ignore m = (bump_matches (trim m) \<noteq> [])"

definition ignores :: "(string \<Rightarrow> bool) list" where
  "ignores = [merge_ignore, bump_ignore]"

datatype severity = Disabled | Warning | Error

record lint_rule =
  rule_name :: string
  rule_severity :: severity
  rule_check :: "string \<Rightarrow> bool \<times> string option"

record evaluation_report =
  results :: "(string \<times> bool \<times> string option) list"
  overallPassed :: bool

definition evaluate :: "lint_rule list \<Rightarrow> string \<Rightarrow> evaluation_report" where
  \<comment> \<open>Modelled from the spec: the Evaluator (section 4.8) is the imported commitlint engine,
      which is not part of this repository. It first tests the message against the ignore
      predicates, in order; if one matches, the report has no rule results and passes.
      Otherwise every enabled rule runs, in order, and the report passes when no rule of
      severity error failed.\<close>
  "evaluate rules m =
     (if list_ex (\<lambda>p. p m) ignores then \<lparr>results = [], overallPassed = True\<rparr>
      else
        (let enabled = filter (\<lambda>r. rule_severity r \<noteq> Disabled) rules
         in \<lparr>results = map (\<lambda>r. (rule_name r, rule_check r m)) enabled,
             overallPassed =
               list_all (\<lambda>r. rule_severity r = Error \<longrightarrow> fst (rule_check r m)) enabled\<rparr>))"

section \<open>The contracts as the specification words them\<close>

definition spec_first_token :: "string \<Rightarrow> string" where
  \<comment> \<open>section 4.5: the first whitespace-delimited token of a description\<close>
  "spec_first_token d = takeWhile (\<lambda>c. \<not> is_space c) (dropWhile is_space d)"

definition spec_tense_passes :: "string \<Rightarrow> bool" where
  \<comment> \<open>section 4.5: an empty description passes; otherwise the first whitespace-delimited
      token, lower-cased, has to be in the allowlist\<close>
  "spec_tense_passes d = (d = [] \<or> toLowerCase (spec_first_token d) \<in> set allowlist)"

section \<open>What the patterns match\<close>

lemma plus_run_iff:
  "(m, r) \<in> set (plus_run p s) \<longleftrightarrow> m \<noteq> [] \<and> s = m @ r \<and> (\<forall>c\<in>set m. p c)"
proof (induction s arbitrary: m)
  case Nil
  then show ?case by simp
next
  case (Cons c cs)
  have img: "(mm, rr) \<in> (\<lambda>(m, r). (c # m, r)) ` S \<longleftrightarrow> (\<exists>m'. mm = c # m' \<and> (m', rr) \<in> S)"
    for S :: "(string \<times> string) set" and mm rr
    by force
  show ?case
  proof (cases "p c")
    case False
    then show ?thesis by (cases m) auto
  next
    case True
    show ?thesis
    proof (cases m)
      case Nil
      then show ?thesis using True by (simp add: img)
    next
      case (Cons x xs)
      then show ?thesis using True Cons.IH [of xs]
        by (cases xs) (auto simp: img)
    qed
  qed
qed

lemma lit_iff: "r \<in> set (lit p s) \<longleftrightarrow> s = p @ r"
  by (induction p s rule: lit.induct) auto

lemma single_char_iff: "(w, r) \<in> set (single_char p s) \<longleftrightarrow> s = w # r \<and> p w"
  by (cases s) auto

lemma opt_lit_iff: "r \<in> set (opt_lit p s) \<longleftrightarrow> s = p @ r \<or> s = r"
  by (auto simp: opt_lit_def lit_iff)

lemma header_first_alternative_iff:
  "(tok, d) \<in> set (header_first_alternative h) \<longleftrightarrow>
     tok \<noteq> [] \<and> (\<forall>c\<in>set tok. component_char c) \<and> d \<noteq> [] \<and> (\<forall>c\<in>set d. dot c) \<and>
     (\<exists>w. is_space w \<and> h = tok @ CHR '':'' # w # d)"
  by (simp add: header_first_alternative_def Bex_def plus_run_iff lit_iff single_char_iff) blast

lemma header_second_alternative_iff:
  "m \<in> set (header_second_alternative h) \<longleftrightarrow> m = h \<and> h \<noteq> [] \<and> (\<forall>c\<in>set h. dot c)"
  by (auto simp: header_second_alternative_def plus_run_iff)

lemma colon_not_component_char: "\<not> component_char (CHR '':'')"
  by (simp add: component_char_def is_word_char_def)

lemma split_at_first:
  assumes "xs @ a # ys = xs' @ a # ys'" and "a \<notin> set xs" and "a \<notin> set xs'"
  shows "xs = xs' \<and> ys = ys'"
proof -
  have "takeWhile (\<lambda>c. c \<noteq> a) (xs @ a # ys) = xs"
    using assms(2) by (auto simp: takeWhile_tail takeWhile_eq_all_conv)
  moreover have "takeWhile (\<lambda>c. c \<noteq> a) (xs' @ a # ys') = xs'"
    using assms(3) by (auto simp: takeWhile_tail takeWhile_eq_all_conv)
  ultimately have "xs = xs'" using assms(1) by simp
  then show ?thesis using assms(1) by simp
qed

lemma header_first_alternative_unique:
  assumes "(tok, d) \<in> set (header_first_alternative h)"
    and "(tok', d') \<in> set (header_first_alternative h)"
  shows "tok = tok' \<and> d = d'"
proof -
  from assms(1) obtain w where 1: "h = tok @ CHR '':'' # w # d" "\<forall>c\<in>set tok. component_char c"
    by (auto simp: header_first_alternative_iff)
  from assms(2) obtain w' where 2: "h = tok' @ CHR '':'' # w' # d'" "\<forall>c\<in>set tok'. component_char c"
    by (auto simp: header_first_alternative_iff)
  have "CHR '':'' \<notin> set tok" "CHR '':'' \<notin> set tok'"
    using 1(2) 2(2) colon_not_component_char by auto
  with 1(1) 2(1) have "tok = tok' \<and> w # d = w' # d'"
    using split_at_first [of tok "CHR '':''" "w # d" tok' "w' # d'"] by simp
  then show ?thesis by simp
qed

lemma headerPattern_first:
  assumes "(tok, d) \<in> set (header_first_alternative h)"
  shows "headerPattern h = Some (Some h, Some tok, Some d)"
proof -
  from assms obtain x xs where e: "header_first_alternative h = x # xs"
    by (cases "header_first_alternative h") auto
  then have "x \<in> set (header_first_alternative h)" by simp
  then have "x = (tok, d)"
    using header_first_alternative_unique [OF assms, of "fst x" "snd x"] by simp
  then show ?thesis using e by (simp add: headerPattern_def)
qed

lemma headerPattern_second:
  assumes "header_first_alternative h = []"
  shows "headerPattern h = (if h \<noteq> [] \<and> (\<forall>c\<in>set h. dot c) then Some (Some h, None, None) else None)"
proof (cases "header_second_alternative h")
  case Nil
  then have "\<not> (h \<noteq> [] \<and> (\<forall>c\<in>set h. dot c))"
    using header_second_alternative_iff [of h h] by simp
  then show ?thesis using assms Nil by (auto simp: headerPattern_def)
next
  case (Cons m ms)
  then have "m \<in> set (header_second_alternative h)" by simp
  then have "m = h \<and> h \<noteq> [] \<and> (\<forall>c\<in>set h. dot c)"
    by (simp add: header_second_alternative_iff)
  then show ?thesis using assms Cons by (simp add: headerPattern_def)
qed

lemma parse_header_first:
  assumes "(tok, d) \<in> set (header_first_alternative h)"
  shows "parse_header h = \<lparr>subject = Some h, component = Some tok, description = Some d, header = h\<rparr>"
proof -
  from assms have "tok \<noteq> []" "d \<noteq> []" "h \<noteq> []"
    by (auto simp: header_first_alternative_iff)
  then show ?thesis
    using headerPattern_first [OF assms] by (simp add: parse_header_def or_null_def)
qed

lemma parse_header_fallback:
  assumes "header_first_alternative h = []"
  shows "parse_header h =
           \<lparr>subject = (if h \<noteq> [] \<and> (\<forall>c\<in>set h. dot c) then Some h else None),
            component = None, description = None, header = h\<rparr>"
  using headerPattern_second [OF assms] by (simp add: parse_header_def or_null_def)

lemma parse_header_cases:
  obtains (shaped) tok d where "(tok, d) \<in> set (header_first_alternative h)"
  | (fallback) "header_first_alternative h = []"
  by (cases "header_first_alternative h") auto

lemma space_is_space: "is_space (CHR '' '')"
  by (simp add: is_space_def)

section \<open>The header parser\<close>

text \<open>
  C2. A header \<open>token: rest\<close> parses to the component \<open>token\<close> and the description
  \<open>rest\<close>. The claim asks of the token only that it has no white space; the pattern wants
  a non-empty run of word characters, dots, underscores and hyphens, and a remainder on
  the same line. For such a token and remainder the parse gives both back unchanged.
\<close>

theorem parse_header_token_rest:
  assumes "token \<noteq> []" and "\<forall>c\<in>set token. component_char c"
    and "rest \<noteq> []" and "\<forall>c\<in>set rest. dot c"
  shows "component (parse_header (token @ '': '' @ rest)) = Some token \<and>
         description (parse_header (token @ '': '' @ rest)) = Some rest"
proof -
  have "(token, rest) \<in> set (header_first_alternative (token @ '': '' @ rest))"
    using assms space_is_space by (auto simp: header_first_alternative_iff)
  then show ?thesis by (simp add: parse_header_first)
qed

theorem parse_header_token_rest_witness:
  "list_all component_char ''dog'' \<and> list_all dot ''refill water bowl'' \<and>
   component (parse_header ''dog: refill water bowl'') = Some ''dog'' \<and>
   description (parse_header ''dog: refill water bowl'') = Some ''refill water bowl''"
proof -
  have a: "\<forall>c\<in>set ''dog''. component_char c"
    by (simp add: component_char_def is_word_char_def)
  have b: "\<forall>c\<in>set ''refill water bowl''. dot c"
    by (simp add: dot_def is_line_terminator_def)
  show ?thesis
    using parse_header_token_rest [of "''dog''" "''refill water bowl''"] a b
    by (simp add: list_all_iff)
qed

theorem parse_header_token_rest_counterexample:
  "\<not> list_ex is_space ''fix(api)'' \<and> ''add x'' \<noteq> [] \<and>
   component (parse_header (''fix(api)'' @ '': '' @ ''add x'')) = None \<and>
   description (parse_header (''fix(api)'' @ '': '' @ ''add x'')) = None"
  by code_simp

text \<open>
  C3. A header without a colon never makes the parser fail. The claim has the description
  equal to the whole header; the pattern's second alternative fills group 1 only, so the
  component and the description are both absent (the rules read them as the empty
  string), the header is kept as it came, and the subject is the whole header when that
  is a non-empty line.
\<close>

theorem parse_header_no_colon:
  assumes "CHR '':'' \<notin> set h"
  shows "component (parse_header h) = None \<and> description (parse_header h) = None \<and>
         header (parse_header h) = h \<and>
         subject (parse_header h) = (if h \<noteq> [] \<and> list_all dot h then Some h else None)"
proof -
  have "header_first_alternative h = []"
  proof (cases "header_first_alternative h")
    case (Cons x xs)
    then have "(fst x, snd x) \<in> set (header_first_alternative h)" by simp
    then obtain w where "h = fst x @ CHR '':'' # w # snd x"
      unfolding header_first_alternative_iff by blast
    then have "CHR '':'' \<in> set h" by (metis in_set_conv_decomp)
    with assms show ?thesis by simp
  qed simp
  then show ?thesis by (simp add: parse_header_fallback list_all_iff)
qed

theorem parse_header_no_colon_witness:
  "component (parse_header ''migrate shoes to new shoe module.'') = None \<and>
   description (parse_header ''migrate shoes to new shoe module.'') = None \<and>
   header (parse_header ''migrate shoes to new shoe module.'') = ''migrate shoes to new shoe module.'' \<and>
   subject (parse_header ''migrate shoes to new shoe module.'') = Some ''migrate shoes to new shoe module.''"
  using parse_header_no_colon [of "''migrate shoes to new shoe module.''"]
  by (simp add: dot_def is_line_terminator_def)

theorem parse_header_no_colon_counterexample:
  "CHR '':'' \<notin> set ''migrate shoes'' \<and>
   description (parse_header ''migrate shoes'') = None \<and>
   or_empty (description (parse_header ''migrate shoes'')) \<noteq> ''migrate shoes''"
  by code_simp

text \<open>
  C6. When the parse gives a component and a description, both are non-empty and the
  header is the component, a colon, one white-space character and the description. The
  claim fixes that character to a space; the pattern takes any character of \<^verbatim>\<open>\s\<close>.
\<close>

theorem parse_header_reconstruct:
  assumes "component (parse_header h) = Some c" and "description (parse_header h) = Some d"
  shows "c \<noteq> [] \<and> d \<noteq> [] \<and> (\<exists>w. is_space w \<and> c @ CHR '':'' # w # d = h)"
proof (cases h rule: parse_header_cases)
  case (shaped tok d')
  then have "c = tok" "d = d'" using assms by (simp_all add: parse_header_first)
  with shaped show ?thesis by (auto simp: header_first_alternative_iff)
next
  case fallback
  then show ?thesis using assms by (simp add: parse_header_fallback)
qed

theorem parse_header_reconstruct_witness:
  "\<exists>w. is_space w \<and> ''dog'' @ CHR '':'' # w # ''refill water bowl'' = ''dog: refill water bowl''"
proof -
  have "component (parse_header ''dog: refill water bowl'') = Some ''dog''"
    "description (parse_header ''dog: refill water bowl'') = Some ''refill water bowl''"
    by code_simp+
  then show ?thesis
    using parse_header_reconstruct [of "''dog: refill water bowl''" "''dog''" "''refill water bowl''"]
    by simp
qed

theorem parse_header_reconstruct_counterexample:
  "component (parse_header (''foo:'' @ [CHR 0x09] @ ''bar'')) = Some ''foo'' \<and>
   description (parse_header (''foo:'' @ [CHR 0x09] @ ''bar'')) = Some ''bar'' \<and>
   ''foo'' @ '': '' @ ''bar'' \<noteq> ''foo:'' @ [CHR 0x09] @ ''bar''"
  by code_simp

section \<open>The rules on missing parts\<close>

text \<open>
  C5. The rules component-empty and description-empty (both enabled with \<^verbatim>\<open>'never'\<close>) are
  independent as functions of the parsed fields: with a component and no description only
  the description rule fails, and with a description and no component only the component
  rule fails. The claim says so of headers; the header pattern, though, fills the
  component and the description together or not at all, so on every raw header the two
  rules pass together or fail together.
\<close>

theorem empty_rules_independent:
  "(or_empty (component p) \<noteq> [] \<and> or_empty (description p) = [] \<longrightarrow>
      fst (component_empty_rule p) \<and> \<not> fst (description_empty_rule p)) \<and>
   (or_empty (component p) = [] \<and> or_empty (description p) \<noteq> [] \<longrightarrow>
      \<not> fst (component_empty_rule p) \<and> fst (description_empty_rule p)) \<and>
   fst (component_empty_rule (parse_header h)) = fst (description_empty_rule (parse_header h))"
proof -
  have "fst (component_empty_rule (parse_header h)) = fst (description_empty_rule (parse_header h))"
  proof (cases h rule: parse_header_cases)
    case (shaped tok d)
    then have "tok \<noteq> []" "d \<noteq> []" by (auto simp: header_first_alternative_iff)
    then show ?thesis
      using shaped
      by (simp add: parse_header_first component_empty_rule_def description_empty_rule_def
          componentEmpty_def descriptionEmpty_def ensure_notEmpty_def or_empty_def)
  next
    case fallback
    then show ?thesis
      by (simp add: parse_header_fallback component_empty_rule_def description_empty_rule_def
          componentEmpty_def descriptionEmpty_def ensure_notEmpty_def or_empty_def)
  qed
  then show ?thesis
    by (simp add: component_empty_rule_def description_empty_rule_def
        componentEmpty_def descriptionEmpty_def ensure_notEmpty_def)
qed

theorem empty_rules_independent_witness:
  "(fst (component_empty_rule
      \<lparr>subject = Some ''kernel:'', component = Some ''kernel'', description = None,
       header = ''kernel:''\<rparr>) \<and>
    \<not> fst (description_empty_rule
      \<lparr>subject = Some ''kernel:'', component = Some ''kernel'', description = None,
       header = ''kernel:''\<rparr>)) \<and>
   (\<not> fst (component_empty_rule
      \<lparr>subject = Some ''add driver'', component = None, description = Some ''add driver'',
       header = ''add driver''\<rparr>) \<and>
    fst (description_empty_rule
      \<lparr>subject = Some ''add driver'', component = None, description = Some ''add driver'',
       header = ''add driver''\<rparr>))"
  using
    empty_rules_independent [of "\<lparr>subject = Some ''kernel:'', component = Some ''kernel'',
       description = None, header = ''kernel:''\<rparr>"]
    empty_rules_independent [of "\<lparr>subject = Some ''add driver'', component = None,
       description = Some ''add driver'', header = ''add driver''\<rparr>"]
  by (simp add: or_empty_def)

theorem empty_rules_independent_counterexample:
  "\<not> fst (component_empty_rule (parse_header ''kernel: '')) \<and>
   \<not> fst (component_empty_rule (parse_header ''kernel:'')) \<and>
   \<not> fst (description_empty_rule (parse_header ''add driver''))"
  by code_simp

section \<open>The case rule\<close>

text \<open>
  C7. The rule custom-subject-case hands the core rule a new object that holds the
  description alone: two parsed headers with the same description get the same result,
  whatever their components and raw headers are, for every core rule, condition and
  list of case styles.
\<close>

theorem customSubjectCaseRule_description_only:
  assumes "description p = description q"
  shows "customSubjectCaseRule subject_case p whn val =
         customSubjectCaseRule subject_case q whn val"
  using assms by (simp add: customSubjectCaseRule_def)

theorem customSubjectCaseRule_description_only_witness:
  "\<forall>subject_case whn val.
     customSubjectCaseRule subject_case
       \<lparr>subject = Some ''dog: refill bowl'', component = Some ''dog'',
        description = Some ''refill bowl'', header = ''dog: refill bowl''\<rparr> whn val =
     customSubjectCaseRule subject_case
       \<lparr>subject = Some ''Cat: refill bowl'', component = Some ''Cat'',
        description = Some ''refill bowl'', header = ''Cat: refill bowl''\<rparr> whn val"
proof (intro allI)
  fix subject_case whn val
  show "customSubjectCaseRule subject_case
       \<lparr>subject = Some ''dog: refill bowl'', component = Some ''dog'',
        description = Some ''refill bowl'', header = ''dog: refill bowl''\<rparr> whn val =
     customSubjectCaseRule subject_case
       \<lparr>subject = Some ''Cat: refill bowl'', component = Some ''Cat'',
        description = Some ''refill bowl'', header = ''Cat: refill bowl''\<rparr> whn val"
    by (rule customSubjectCaseRule_description_only) simp
qed

section \<open>Trimming, splitting and lower-casing\<close>

lemma split_not_Nil: "split sep s \<noteq> []"
  by (induction s) (auto split: list.splits)

lemma hd_split: "hd (split sep s) = takeWhile (\<lambda>c. c \<noteq> sep) s"
  by (induction s) (auto split: list.splits simp: split_not_Nil)

lemma firstWord_of_takeWhile: "firstWord_of d = takeWhile (\<lambda>c. c \<noteq> CHR '' '') d"
  using hd_split [of "CHR '' ''" d] split_not_Nil [of "CHR '' ''" d]
  by (cases "split (CHR '' '') d") (simp_all add: firstWord_of_def)

lemma rstrip_decomp: "xs = rev (dropWhile P (rev xs)) @ rev (takeWhile P (rev xs))"
  by (metis rev_append rev_rev_ident takeWhile_dropWhile_id)

lemma rstrip_Cons:
  "rev (dropWhile P (rev (x # xs))) =
     (if \<forall>c\<in>set (x # xs). P c then [] else x # rev (dropWhile P (rev xs)))"
  by (auto simp: dropWhile_append dropWhile_eq_Nil_conv)

lemma takeWhile_rstrip:
  "takeWhile (\<lambda>c. \<not> P c) (rev (dropWhile P (rev xs))) = takeWhile (\<lambda>c. \<not> P c) xs"
proof (induction xs)
  case Nil
  then show ?case by simp
next
  case (Cons x xs)
  show ?case
  proof (cases "P x")
    case True
    then show ?thesis by (simp only: rstrip_Cons) auto
  next
    case False
    then have "\<not> (\<forall>c\<in>set (x # xs). P c)" by auto
    then show ?thesis using False Cons.IH by (simp only: rstrip_Cons) simp
  qed
qed

lemma dropWhile_all_iff: "(\<forall>x\<in>set (dropWhile P s). P x) \<longleftrightarrow> (\<forall>x\<in>set s. P x)"
proof
  assume all: "\<forall>x\<in>set (dropWhile P s). P x"
  have "dropWhile P s = []"
  proof (rule ccontr)
    assume ne: "dropWhile P s \<noteq> []"
    then have "\<not> P (hd (dropWhile P s))" by (rule hd_dropWhile)
    moreover have "hd (dropWhile P s) \<in> set (dropWhile P s)" using ne by (rule hd_in_set)
    ultimately show False using all by blast
  qed
  then show "\<forall>x\<in>set s. P x" by simp
next
  assume "\<forall>x\<in>set s. P x"
  then show "\<forall>x\<in>set (dropWhile P s). P x" by (auto dest: set_dropWhileD)
qed

lemma trim_Nil_iff: "trim s = [] \<longleftrightarrow> (\<forall>c\<in>set s. is_space c)"
proof -
  have "trim s = [] \<longleftrightarrow> (\<forall>x\<in>set (dropWhile is_space s). is_space x)"
    by (simp add: trim_def)
  then show ?thesis by (simp only: dropWhile_all_iff)
qed

lemma hd_trim:
  assumes ne: "trim s \<noteq> []"
  shows "\<not> is_space (hd (trim s))"
proof -
  let ?t = "dropWhile is_space s"
  have "?t = trim s @ rev (takeWhile is_space (rev ?t))"
    unfolding trim_def by (rule rstrip_decomp)
  then have "hd ?t = hd (trim s)" using ne by (metis hd_append2)
  moreover have "?t \<noteq> []"
  proof
    assume "?t = []"
    then have "trim s = []" by (simp only: trim_def rev.simps dropWhile.simps)
    with ne show False by simp
  qed
  ultimately show ?thesis using hd_dropWhile [of is_space s] by simp
qed

lemma firstWord_Nil_iff: "firstWord_of (trim s) = [] \<longleftrightarrow> trim s = []"
proof
  assume "firstWord_of (trim s) = []"
  then have "trim s = [] \<or> hd (trim s) = CHR '' ''"
    by (cases "trim s") (auto simp: firstWord_of_takeWhile split: if_splits)
  then show "trim s = []" using hd_trim [of s] space_is_space by metis
qed (simp add: firstWord_of_takeWhile)

lemma is_space_lower_char: "is_space (lower_char c) = is_space c"
  by (auto simp: is_space_def lower_char_def Let_def)

lemma toLowerCase_spec_first_token:
  "toLowerCase (spec_first_token d) = spec_first_token (toLowerCase d)"
  by (simp add: toLowerCase_def spec_first_token_def takeWhile_map dropWhile_map comp_def
      is_space_lower_char)

lemma spec_first_token_trim: "spec_first_token s = takeWhile (\<lambda>c. \<not> is_space c) (trim s)"
  by (simp add: spec_first_token_def trim_def takeWhile_rstrip)

lemma takeWhile_weaker:
  assumes "\<And>x. P x \<Longrightarrow> Q x"
  shows "takeWhile Q xs = takeWhile P xs @ takeWhile Q (dropWhile P xs)"
  using assms by (induction xs) auto

section \<open>The tense rule\<close>

lemma tense_rule_fst:
  "fst (tense_rule p) \<longleftrightarrow>
     (let d = trim (toLowerCase (or_empty (description p)))
      in d = [] \<or> takeWhile (\<lambda>c. c \<noteq> CHR '' '') d \<in> set allowlist)"
  by (simp add: tense_rule_def descriptionPresentImperativeTense_def Let_def
      firstWord_Nil_iff firstWord_of_takeWhile [symmetric])

lemma rstrip_append:
  assumes "\<forall>c\<in>set w. \<not> P c"
  shows "rev (dropWhile P (rev (w @ y))) = w @ rev (dropWhile P (rev y))"
  using assms
proof (induction w)
  case Nil
  then show ?case by simp
next
  case (Cons x xs)
  then have "\<not> (\<forall>c\<in>set (x # xs @ y). P c)" by auto
  then have "rev (dropWhile P (rev (x # xs @ y))) = x # rev (dropWhile P (rev (xs @ y)))"
    by (simp only: rstrip_Cons if_False)
  then show ?case using Cons by simp
qed

lemma firstWord_of_word:
  assumes pre: "\<forall>c\<in>set pre. is_space c" and ne: "w \<noteq> []" and w: "\<forall>c\<in>set w. \<not> is_space c"
    and z: "z = [] \<or> (\<exists>rest. z = CHR '' '' # rest)"
  shows "takeWhile (\<lambda>c. c \<noteq> CHR '' '') (trim (pre @ w @ z)) = w"
proof -
  have "dropWhile is_space (pre @ w @ z) = dropWhile is_space (w @ z)"
    using pre by (simp add: dropWhile_append2)
  also have "\<dots> = w @ z" using ne w by (cases w) auto
  finally have dw: "dropWhile is_space (pre @ w @ z) = w @ z" .
  have "trim (pre @ w @ z) = rev (dropWhile is_space (rev (w @ z)))"
    unfolding trim_def dw ..
  also have "\<dots> = w @ rev (dropWhile is_space (rev z))"
    using w by (rule rstrip_append)
  finally have "trim (pre @ w @ z) = w @ rev (dropWhile is_space (rev z))" .
  moreover have "takeWhile (\<lambda>c. c \<noteq> CHR '' '') (rev (dropWhile is_space (rev z))) = []"
  proof (cases z)
    case Nil
    then show ?thesis by simp
  next
    case (Cons a rest)
    then have "a = CHR '' ''" using z by auto
    then show ?thesis unfolding Cons by (simp only: rstrip_Cons) simp
  qed
  moreover have "\<forall>c\<in>set w. c \<noteq> CHR '' ''" using w space_is_space by auto
  ultimately show ?thesis by (simp add: takeWhile_append2)
qed

lemma lower_char_space: "lower_char (CHR '' '') = CHR '' ''"
  by (simp add: lower_char_def)

lemma tense_rule_word:
  assumes pre: "\<forall>c\<in>set pre. is_space c" and ne: "w \<noteq> []" and w: "\<forall>c\<in>set w. \<not> is_space c"
    and d: "description p = Some (pre @ w) \<or> description p = Some (pre @ w @ CHR '' '' # rest)"
  shows "fst (tense_rule p) \<longleftrightarrow> toLowerCase w \<in> set allowlist"
proof -
  let ?low = "toLowerCase"
  from d obtain z where z: "z = [] \<or> z = CHR '' '' # rest" and dz: "description p = Some (pre @ w @ z)"
    by auto
  have lz: "?low z = [] \<or> (\<exists>r. ?low z = CHR '' '' # r)"
    using z by (auto simp: toLowerCase_def lower_char_space)
  have "?low (pre @ w @ z) = ?low pre @ ?low w @ ?low z" by (simp add: toLowerCase_def)
  moreover have "\<forall>c\<in>set (?low pre). is_space c"
    using pre by (simp add: toLowerCase_def is_space_lower_char)
  moreover have "?low w \<noteq> []" using ne by (simp add: toLowerCase_def)
  moreover have "\<forall>c\<in>set (?low w). \<not> is_space c"
    using w by (simp add: toLowerCase_def is_space_lower_char)
  ultimately have fw: "takeWhile (\<lambda>c. c \<noteq> CHR '' '') (trim (?low (pre @ w @ z))) = ?low w"
    using firstWord_of_word [of "?low pre" "?low w" "?low z"] lz by simp
  then have "trim (?low (pre @ w @ z)) \<noteq> []" using \<open>?low w \<noteq> []\<close> by auto
  then show ?thesis using fw dz by (simp add: tense_rule_fst or_empty_def Let_def)
qed

lemma tense_rule_blank:
  assumes "\<forall>c\<in>set (or_empty (description p)). is_space c"
  shows "fst (tense_rule p)"
proof -
  have "\<forall>c\<in>set (toLowerCase (or_empty (description p))). is_space c"
    using assms by (simp add: toLowerCase_def is_space_lower_char)
  then have "trim (toLowerCase (or_empty (description p))) = []" by (simp only: trim_Nil_iff)
  then show ?thesis by (simp add: tense_rule_fst)
qed

lemma allowlist_lower: "list_all (\<lambda>w. toLowerCase w = w) allowlist"
  by code_simp

lemma allowlist_no_space: "list_all (\<lambda>w. \<not> list_ex is_space w) allowlist"
  by code_simp

lemma startsWith_iff: "startsWith s p \<longleftrightarrow> (\<exists>b. s = p @ b)"
  by (induction s p rule: startsWith.induct) auto

lemma includes_str_iff: "includes_str s sub \<longleftrightarrow> (\<exists>a b. s = a @ sub @ b)"
proof (induction s)
  case Nil
  then show ?case by auto
next
  case (Cons c cs)
  show ?case
  proof
    assume "includes_str (c # cs) sub"
    then consider "startsWith (c # cs) sub" | "includes_str cs sub" by auto
    then show "\<exists>a b. c # cs = a @ sub @ b"
    proof cases
      case 1
      then obtain b where "c # cs = [] @ sub @ b" by (auto simp: startsWith_iff)
      then show ?thesis by blast
    next
      case 2
      then obtain a b where "cs = a @ sub @ b" using Cons.IH by auto
      then have "c # cs = (c # a) @ sub @ b" by simp
      then show ?thesis by blast
    qed
  next
    assume "\<exists>a b. c # cs = a @ sub @ b"
    then obtain a b where ab: "c # cs = a @ sub @ b" by blast
    show "includes_str (c # cs) sub"
    proof (cases a)
      case Nil
      then have "startsWith (c # cs) sub" using ab by (auto simp: startsWith_iff)
      then show ?thesis by simp
    next
      case (Cons x xs)
      then have "cs = xs @ sub @ b" using ab by simp
      then have "includes_str cs sub" using Cons.IH by blast
      then show ?thesis by simp
    qed
  qed
qed

lemma takeWhile_not_Nil_D: "takeWhile Q xs \<noteq> [] \<Longrightarrow> xs \<noteq> []"
  by (cases xs) auto

lemma hd_takeWhile_same: "takeWhile Q xs \<noteq> [] \<Longrightarrow> hd (takeWhile Q xs) = hd xs"
  by (cases xs) (auto split: if_splits)

lemma tense_message:
  assumes "fw \<noteq> []"
  shows "message [''subject'', ''must'', ''use present imperative tense. disallowed word: '', fw] =
         ''subject must use present imperative tense. disallowed word:  '' @ fw"
  using assms by (simp add: message_def)

text \<open>
  C1. The rule description-present-imperative-tense (enabled with \<^verbatim>\<open>'always'\<close>) passes
  exactly when the description, lower-cased and trimmed, is empty or its text before the
  first space character is in the allowlist. The claim delimits the first token by any
  white space and lets only the empty description pass without a verb; the code splits
  at the space character U+0020 alone, and a description of white space passes too. For
  a first word without white space that ends the description or is followed by a space,
  the result is the membership of that word, lower-cased, whatever follows.
\<close>

theorem tense_rule_first_word:
  "(fst (tense_rule p) \<longleftrightarrow>
      (let d = trim (toLowerCase (or_empty (description p)))
       in d = [] \<or> takeWhile (\<lambda>c. c \<noteq> CHR '' '') d \<in> set allowlist)) \<and>
   ((\<forall>c\<in>set pre. is_space c) \<and> w \<noteq> [] \<and> (\<forall>c\<in>set w. \<not> is_space c) \<and>
    (description p = Some (pre @ w) \<or> description p = Some (pre @ w @ CHR '' '' # rest)) \<longrightarrow>
      (fst (tense_rule p) \<longleftrightarrow> toLowerCase w \<in> set allowlist)) \<and>
   ((\<forall>c\<in>set (or_empty (description p)). is_space c) \<longrightarrow> fst (tense_rule p))"
  using tense_rule_fst [of p] tense_rule_word [of pre w p rest] tense_rule_blank [of p]
  by blast

theorem tense_rule_first_word_witness:
  "fst (tense_rule \<lparr>subject = Some ''dog: Add water bowl'', component = Some ''dog'',
      description = Some ''Add water bowl'', header = ''dog: Add water bowl''\<rparr>) \<and>
   fst (tense_rule \<lparr>subject = Some ''dog:  '', component = Some ''dog'',
      description = Some '' '', header = ''dog:  ''\<rparr>)"
proof -
  have a: "toLowerCase ''Add'' \<in> set allowlist" by code_simp
  have b: "\<forall>c\<in>set ''Add''. \<not> is_space c" by (simp add: is_space_def)
  have c: "\<forall>c\<in>set '' ''. is_space c" by (simp add: is_space_def)
  note word = tense_rule_first_word [of "\<lparr>subject = Some ''dog: Add water bowl'',
        component = Some ''dog'', description = Some ''Add water bowl'',
        header = ''dog: Add water bowl''\<rparr>" "[]" "''Add''" "''water bowl''",
      THEN conjunct2, THEN conjunct1]
  note blank = tense_rule_first_word [of "\<lparr>subject = Some ''dog:  '', component = Some ''dog'',
        description = Some '' '', header = ''dog:  ''\<rparr>" "[]" "[]" "[]",
      THEN conjunct2, THEN conjunct2]
  have "fst (tense_rule \<lparr>subject = Some ''dog: Add water bowl'', component = Some ''dog'',
      description = Some ''Add water bowl'', header = ''dog: Add water bowl''\<rparr>)"
    using word a b by simp
  moreover have "fst (tense_rule \<lparr>subject = Some ''dog:  '', component = Some ''dog'',
      description = Some '' '', header = ''dog:  ''\<rparr>)"
    using blank c by (simp add: or_empty_def)
  ultimately show ?thesis by simp
qed

theorem tense_rule_first_word_counterexample:
  "description (parse_header (''dog: add'' @ [CHR 0x09] @ ''water'')) =
     Some (''add'' @ [CHR 0x09] @ ''water'') \<and>
   spec_tense_passes (''add'' @ [CHR 0x09] @ ''water'') \<and>
   \<not> fst (tense_rule (parse_header (''dog: add'' @ [CHR 0x09] @ ''water'')))"
  by code_simp

text \<open>
  C8. When the description has a first whitespace-delimited word and that word,
  lower-cased, is not in the allowlist, the tense rule fails and its message names the
  word: the message is the fixed text and then the word. Where white space other than a
  space follows the word, the message goes on with the description up to its next space.
\<close>

theorem tense_rule_failure_names_word:
  assumes tok: "tok = toLowerCase (spec_first_token (or_empty (description p)))"
    and ne: "tok \<noteq> []" and nin: "tok \<notin> set allowlist"
  shows "\<not> fst (tense_rule p) \<and>
         (\<exists>msg suffix. snd (tense_rule p) = Some msg \<and> includes_str msg tok \<and>
            msg = ''subject must use present imperative tense. disallowed word:  '' @ tok @ suffix)"
proof -
  define d where "d = trim (toLowerCase (or_empty (description p)))"
  define fw where "fw = takeWhile (\<lambda>c. c \<noteq> CHR '' '') d"
  define sfx where "sfx = takeWhile (\<lambda>c. c \<noteq> CHR '' '') (dropWhile (\<lambda>c. \<not> is_space c) d)"
  have "tok = spec_first_token (toLowerCase (or_empty (description p)))"
    unfolding tok by (rule toLowerCase_spec_first_token)
  also have "\<dots> = takeWhile (\<lambda>c. \<not> is_space c) d"
    unfolding d_def by (rule spec_first_token_trim)
  finally have tok_d: "tok = takeWhile (\<lambda>c. \<not> is_space c) d" .
  have "\<And>x. \<not> is_space x \<Longrightarrow> x \<noteq> CHR '' ''" using space_is_space by auto
  then have fw_split: "fw = tok @ sfx"
    unfolding fw_def tok_d sfx_def by (rule takeWhile_weaker)
  then have fw_ne: "fw \<noteq> []" using ne by simp
  have fw_nin: "fw \<notin> set allowlist"
  proof
    assume mem: "fw \<in> set allowlist"
    then have clean: "\<forall>c\<in>set fw. \<not> is_space c"
      using allowlist_no_space by (auto simp: list_all_iff list_ex_iff)
    have "sfx = []"
    proof (rule ccontr)
      assume sne: "sfx \<noteq> []"
      then have dne: "dropWhile (\<lambda>c. \<not> is_space c) d \<noteq> []"
        unfolding sfx_def by (rule takeWhile_not_Nil_D)
      then have "\<not> \<not> is_space (hd (dropWhile (\<lambda>c. \<not> is_space c) d))" by (rule hd_dropWhile)
      moreover have "hd sfx = hd (dropWhile (\<lambda>c. \<not> is_space c) d)"
        using sne unfolding sfx_def by (rule hd_takeWhile_same)
      moreover have "hd sfx \<in> set fw" using sne fw_split by simp
      ultimately show False using clean by auto
    qed
    then show False using mem nin fw_split by simp
  qed
  have res: "tense_rule p =
      (False, Some (''subject must use present imperative tense. disallowed word:  '' @ fw))"
    using fw_ne fw_nin
    by (simp add: tense_rule_def descriptionPresentImperativeTense_def Let_def
        firstWord_of_takeWhile d_def [symmetric] fw_def [symmetric] tense_message)
  have "includes_str (''subject must use present imperative tense. disallowed word:  '' @ tok @ sfx) tok"
    unfolding includes_str_iff by blast
  then show ?thesis using res fw_split by simp
qed

theorem tense_rule_failure_names_word_witness:
  "\<not> fst (tense_rule \<lparr>subject = Some ''dungeonmaster: Fixes a bug'',
       component = Some ''dungeonmaster'', description = Some ''Fixes a bug'',
       header = ''dungeonmaster: Fixes a bug''\<rparr>) \<and>
   (\<exists>msg suffix. snd (tense_rule \<lparr>subject = Some ''dungeonmaster: Fixes a bug'',
       component = Some ''dungeonmaster'', description = Some ''Fixes a bug'',
       header = ''dungeonmaster: Fixes a bug''\<rparr>) = Some msg \<and> includes_str msg ''fixes'' \<and>
      msg = ''subject must use present imperative tense. disallowed word:  '' @ ''fixes'' @ suffix)"
proof -
  have a: "''fixes'' = toLowerCase (spec_first_token (or_empty (description
      \<lparr>subject = Some ''dungeonmaster: Fixes a bug'',
       component = Some ''dungeonmaster'', description = Some ''Fixes a bug'',
       header = ''dungeonmaster: Fixes a bug''\<rparr>)))"
    by code_simp
  have b: "''fixes'' \<noteq> []" by simp
  have c: "''fixes'' \<notin> set allowlist" by code_simp
  show ?thesis by (rule tense_rule_failure_names_word [OF a b c])
qed

text \<open>
  C9. The allowlist that the tense rule searches is the union of the local additions
  and the list borrowed from the plugin, and every entry of both lists is its own
  lower-cased form.
\<close>

theorem allowlist_union_lower_case:
  "set allowlist = set ALLOWED_IMPERATIVE_VERBS \<union> set COMMITLINT_PLUGIN_TENSE_ALLOWLIST \<and>
   (\<forall>w \<in> set ALLOWED_IMPERATIVE_VERBS \<union> set COMMITLINT_PLUGIN_TENSE_ALLOWLIST.
      toLowerCase w = w)"
  using allowlist_lower by (simp add: allowlist_def list_all_iff)

theorem allowlist_union_lower_case_witness:
  "''compress'' \<in> set ALLOWED_IMPERATIVE_VERBS \<and> toLowerCase ''compress'' = ''compress'' \<and>
   ''zero'' \<in> set COMMITLINT_PLUGIN_TENSE_ALLOWLIST \<and> toLowerCase ''zero'' = ''zero''"
proof -
  have a: "''compress'' \<in> set ALLOWED_IMPERATIVE_VERBS"
    by (simp add: ALLOWED_IMPERATIVE_VERBS_def)
  have b: "''zero'' \<in> set COMMITLINT_PLUGIN_TENSE_ALLOWLIST"
    by (simp add: COMMITLINT_PLUGIN_TENSE_ALLOWLIST_def)
  from a b show ?thesis using allowlist_union_lower_case by blast
qed

section \<open>The ignore predicates\<close>

lemma bump_matches_iff:
  "(a, b) \<in> set (bump_matches s) \<longleftrightarrow>
     a \<noteq> [] \<and> (\<forall>c\<in>set a. bump_char c) \<and> b \<noteq> [] \<and> (\<forall>c\<in>set b. bump_char c) \<and>
     (s = ''bump '' @ a @ '' to v'' @ b \<or> s = ''bump '' @ a @ '' to '' @ b)"
  by (simp add: bump_matches_def Bex_def plus_run_iff lit_iff opt_lit_iff) blast

lemma v_bump_char: "bump_char (CHR ''v'')"
  by (simp add: bump_char_def is_word_char_def)

lemma bump_ignore_iff:
  "bump_ignore m \<longleftrightarrow>
     (\<exists>a b. a \<noteq> [] \<and> (\<forall>c\<in>set a. bump_char c) \<and> b \<noteq> [] \<and> (\<forall>c\<in>set b. bump_char c) \<and>
            trim m = ''bump '' @ a @ '' to '' @ b)"
proof
  assume "bump_ignore m"
  then obtain x where "x \<in> set (bump_matches (trim m))"
    by (cases "bump_matches (trim m)") (auto simp: bump_ignore_def)
  then have "(fst x, snd x) \<in> set (bump_matches (trim m))" by simp
  then have *: "fst x \<noteq> []" "\<forall>c\<in>set (fst x). bump_char c" "snd x \<noteq> []" "\<forall>c\<in>set (snd x). bump_char c"
    "trim m = ''bump '' @ fst x @ '' to v'' @ snd x \<or> trim m = ''bump '' @ fst x @ '' to '' @ snd x"
    unfolding bump_matches_iff by blast+
  from *(5) show "\<exists>a b. a \<noteq> [] \<and> (\<forall>c\<in>set a. bump_char c) \<and> b \<noteq> [] \<and> (\<forall>c\<in>set b. bump_char c) \<and>
            trim m = ''bump '' @ a @ '' to '' @ b"
  proof
    assume "trim m = ''bump '' @ fst x @ '' to v'' @ snd x"
    then have "trim m = ''bump '' @ fst x @ '' to '' @ (CHR ''v'' # snd x)" by simp
    moreover have "\<forall>c\<in>set (CHR ''v'' # snd x). bump_char c" using *(4) v_bump_char by simp
    ultimately show ?thesis using *(1,2) by blast
  next
    assume "trim m = ''bump '' @ fst x @ '' to '' @ snd x"
    then show ?thesis using * by blast
  qed
next
  assume "\<exists>a b. a \<noteq> [] \<and> (\<forall>c\<in>set a. bump_char c) \<and> b \<noteq> [] \<and> (\<forall>c\<in>set b. bump_char c) \<and>
            trim m = ''bump '' @ a @ '' to '' @ b"
  then obtain a b where "(a, b) \<in> set (bump_matches (trim m))"
    unfolding bump_matches_iff by blast
  then show "bump_ignore m" by (auto simp: bump_ignore_def)
qed

lemma bump_char_not_terminator: "bump_char c \<Longrightarrow> \<not> is_line_terminator c"
  by (auto simp: bump_char_def is_word_char_def is_line_terminator_def Let_def)

lemma bump_ignore_single_line:
  assumes "bump_ignore m"
  shows "\<forall>c\<in>set (trim m). \<not> is_line_terminator c"
proof -
  from assms obtain a b where ab: "\<forall>c\<in>set a. bump_char c" "\<forall>c\<in>set b. bump_char c"
    "trim m = ''bump '' @ a @ '' to '' @ b"
    unfolding bump_ignore_iff by blast
  have "\<forall>c\<in>set ''bump ''. \<not> is_line_terminator c" "\<forall>c\<in>set '' to ''. \<not> is_line_terminator c"
    by (simp_all add: is_line_terminator_def)
  then show ?thesis
    unfolding ab(3) set_append ball_Un using ab(1,2) bump_char_not_terminator by blast
qed

lemma trim_keeps_inner:
  assumes "list_ex (\<lambda>c. \<not> is_space c) line" and "list_ex (\<lambda>c. \<not> is_space c) later"
  shows "x \<in> set (trim (line @ x # later))"
proof -
  from assms(1) obtain u where u: "u \<in> set line" "\<not> is_space u" by (auto simp: list_ex_iff)
  from assms(2) obtain v where v: "v \<in> set (rev later)" "\<not> is_space v" by (auto simp: list_ex_iff)
  have "dropWhile is_space (line @ x # later) = dropWhile is_space line @ x # later"
    using u by (rule dropWhile_append1)
  then have "rev (dropWhile is_space (line @ x # later)) =
             rev later @ x # rev (dropWhile is_space line)" by simp
  moreover have "dropWhile is_space (rev later @ x # rev (dropWhile is_space line)) =
             dropWhile is_space (rev later) @ x # rev (dropWhile is_space line)"
    using v by (rule dropWhile_append1)
  ultimately show ?thesis by (simp add: trim_def)
qed

text \<open>
  C4. A commit message that one of the ignore predicates matches (it contains
  \<^verbatim>\<open>Merge pull request #\<close>, or its trimmed text matches the version-bump pattern) gets a
  report with no rule results that passes, whatever the rules are.
\<close>

theorem ignored_message_empty_report:
  assumes "merge_ignore m \<or> bump_ignore m"
  shows "evaluate rules m = \<lparr>results = [], overallPassed = True\<rparr>"
  using assms by (auto simp: evaluate_def ignores_def)

theorem ignored_message_empty_report_witness:
  "\<forall>rules.
     evaluate rules ''Merge pull request #42 from x/y'' = \<lparr>results = [], overallPassed = True\<rparr> \<and>
     evaluate rules ''bump foo-pkg to v1.2.3'' = \<lparr>results = [], overallPassed = True\<rparr>"
proof (intro allI conjI)
  fix rules :: "lint_rule list"
  have "merge_ignore ''Merge pull request #42 from x/y''" by code_simp
  then show "evaluate rules ''Merge pull request #42 from x/y'' = \<lparr>results = [], overallPassed = True\<rparr>"
    using ignored_message_empty_report by blast
  have "bump_ignore ''bump foo-pkg to v1.2.3''" by code_simp
  then show "evaluate rules ''bump foo-pkg to v1.2.3'' = \<lparr>results = [], overallPassed = True\<rparr>"
    using ignored_message_empty_report by blast
qed

text \<open>
  C10. The version-bump predicate matches exactly when the whole trimmed message is one
  bump line, \<^verbatim>\<open>bump\<close>, a run, \<^verbatim>\<open>to\<close> and a run. A message with text on a later line is
  not matched by it. The claim has every such message fully validated; it is, unless the
  other ignore predicate matches it: a message that neither predicate matches gets the
  result of every enabled rule.
\<close>

theorem bump_ignore_whole_message:
  "(bump_ignore m \<longleftrightarrow>
     (\<exists>a b. a \<noteq> [] \<and> (\<forall>c\<in>set a. bump_char c) \<and> b \<noteq> [] \<and> (\<forall>c\<in>set b. bump_char c) \<and>
            trim m = ''bump '' @ a @ '' to '' @ b)) \<and>
   (list_ex (\<lambda>c. \<not> is_space c) line \<and> list_ex (\<lambda>c. \<not> is_space c) later \<and>
    is_line_terminator nl \<longrightarrow> \<not> bump_ignore (line @ nl # later)) \<and>
   (\<not> bump_ignore m \<and> \<not> merge_ignore m \<longrightarrow>
      results (evaluate rules m) =
        map (\<lambda>r. (rule_name r, rule_check r m)) (filter (\<lambda>r. rule_severity r \<noteq> Disabled) rules))"
proof (intro conjI impI)
  show "bump_ignore m \<longleftrightarrow>
     (\<exists>a b. a \<noteq> [] \<and> (\<forall>c\<in>set a. bump_char c) \<and> b \<noteq> [] \<and> (\<forall>c\<in>set b. bump_char c) \<and>
            trim m = ''bump '' @ a @ '' to '' @ b)"
    by (rule bump_ignore_iff)
next
  assume h: "list_ex (\<lambda>c. \<not> is_space c) line \<and> list_ex (\<lambda>c. \<not> is_space c) later \<and>
    is_line_terminator nl"
  then have "nl \<in> set (trim (line @ nl # later))" by (simp add: trim_keeps_inner)
  then show "\<not> bump_ignore (line @ nl # later)"
    using h bump_ignore_single_line by blast
next
  assume "\<not> bump_ignore m \<and> \<not> merge_ignore m"
  then show "results (evaluate rules m) =
        map (\<lambda>r. (rule_name r, rule_check r m)) (filter (\<lambda>r. rule_severity r \<noteq> Disabled) rules)"
    by (simp add: evaluate_def ignores_def Let_def)
qed

theorem bump_ignore_whole_message_witness:
  "bump_ignore ''bump foo-pkg to v1.2.3'' \<and>
   \<not> bump_ignore (''bump foo-pkg to v1.2.3'' @ CHR 0x0A # [CHR 0x0A] @ ''needed by the new build'') \<and>
   results (evaluate
      [\<lparr>rule_name = ''subject-full-stop'', rule_severity = Error,
        rule_check = (\<lambda>m. (False, None))\<rparr>]
      ''bump the version.'') = [(''subject-full-stop'', False, None)]"
proof -
  have a: "''foo-pkg'' \<noteq> [] \<and> (\<forall>c\<in>set ''foo-pkg''. bump_char c) \<and> ''v1.2.3'' \<noteq> [] \<and>
      (\<forall>c\<in>set ''v1.2.3''. bump_char c) \<and>
      trim ''bump foo-pkg to v1.2.3'' = ''bump '' @ ''foo-pkg'' @ '' to '' @ ''v1.2.3''"
    by code_simp
  have 1: "bump_ignore ''bump foo-pkg to v1.2.3''"
    using a bump_ignore_whole_message [of "''bump foo-pkg to v1.2.3''", THEN conjunct1] by blast
  have b: "list_ex (\<lambda>c. \<not> is_space c) ''bump foo-pkg to v1.2.3'' \<and>
      list_ex (\<lambda>c. \<not> is_space c) ([CHR 0x0A] @ ''needed by the new build'') \<and>
      is_line_terminator (CHR 0x0A)"
    by code_simp
  have 2: "\<not> bump_ignore (''bump foo-pkg to v1.2.3'' @ CHR 0x0A # [CHR 0x0A] @ ''needed by the new build'')"
    using b bump_ignore_whole_message [THEN conjunct2, THEN conjunct1] by blast
  have c: "\<not> bump_ignore ''bump the version.'' \<and> \<not> merge_ignore ''bump the version.''"
    by code_simp
  have 3: "results (evaluate
      [\<lparr>rule_name = ''subject-full-stop'', rule_severity = Error,
        rule_check = (\<lambda>m. (False, None))\<rparr>]
      ''bump the version.'') = [(''subject-full-stop'', False, None)]"
    using c bump_ignore_whole_message [of "''bump the version.''" _ _ _
        "[\<lparr>rule_name = ''subject-full-stop'', rule_severity = Error,
           rule_check = (\<lambda>m. (False, None))\<rparr>]", THEN conjunct2, THEN conjunct2]
    by simp
  from 1 2 3 show ?thesis by blast
qed

theorem bump_ignore_whole_message_counterexample:
  "\<not> bump_ignore (''bump foo-pkg to v1.2.3'' @ [CHR 0x0A, CHR 0x0A] @ ''Merge pull request #7'') \<and>
   merge_ignore (''bump foo-pkg to v1.2.3'' @ [CHR 0x0A, CHR 0x0A] @ ''Merge pull request #7'') \<and>
   evaluate
      [\<lparr>rule_name = ''body-max-line-length'', rule_severity = Error,
        rule_check = (\<lambda>m. (False, None))\<rparr>]
      (''bump foo-pkg to v1.2.3'' @ [CHR 0x0A, CHR 0x0A] @ ''Merge pull request #7'') =
     \<lparr>results = [], overallPassed = True\<rparr>"
  by code_simp

end
